theory Spec2Isabelle
  imports Main "HOL-Library.Multiset" "HOL-Library.Char_ord" "HOL-Library.List_Lexorder"
begin

section \<open>Episodic few-shot data loading (episodic\_dataloader.py)\<close>

text \<open>
  The module builds N-way K-shot episodes: \<open>EpisodicSampler\<close> draws groups of class
  indices, \<open>MetaSet_Dataset\<close> holds one shuffled loader per class, and two functions
  split a fetched batch into a support set and a query set.  Python integers are
  \<open>int\<close>, exceptions are values of \<open>error\<close>, and the global torch random generator
  is a state \<open>'g\<close> threaded through every draw.
\<close>

subsection \<open>Python and torch primitives\<close>

datatype error = RuntimeError | ValueError | IndexError | StopIteration | TypeError | OSError string

text \<open>The slice \<open>xs[:k]\<close>: a negative bound counts from the end, and bounds are clipped.\<close>

definition py_slice_to :: "'a list \<Rightarrow> int \<Rightarrow> 'a list" where
  "py_slice_to xs k = (if k < 0 then take (nat (int (length xs) + k)) xs else take (nat k) xs)"

text \<open>The slice \<open>xs[k:]\<close>.\<close>

definition py_slice_from :: "'a list \<Rightarrow> int \<Rightarrow> 'a list" where
  "py_slice_from xs k = (if k < 0 then drop (nat (int (length xs) + k)) xs else drop (nat k) xs)"

text \<open>Indexing \<open>xs[i]\<close>: negative indices wrap once, anything else out of range raises.\<close>

definition py_index :: "'a list \<Rightarrow> int \<Rightarrow> error + 'a" where
  "py_index xs i =
     (if 0 \<le> i \<and> i < int (length xs) then Inr (xs ! nat i)
      else if i < 0 \<and> - int (length xs) \<le> i then Inr (xs ! nat (int (length xs) + i))
      else Inl IndexError)"

text \<open>\<open>range(n)\<close> is empty for \<open>n \<le> 0\<close>.\<close>

definition py_range :: "int \<Rightarrow> int list" where
  "py_range n = map int [0..<nat n]"

text \<open>Running a list of fallible steps in order; the first exception ends the run.\<close>

fun sequence_sum :: "(error + 'a) list \<Rightarrow> error + 'a list" where
  "sequence_sum [] = Inr []"
| "sequence_sum (r # rs) =
     (case r of
        Inl e \<Rightarrow> Inl e
      | Inr x \<Rightarrow> (case sequence_sum rs of Inl e \<Rightarrow> Inl e | Inr xs \<Rightarrow> Inr (x # xs)))"

text \<open>
  \<open>torch.randperm(n)\<close> is library code.  Its draw is a parameter \<open>rp\<close> that maps a
  generator state and a size to a list and the next state; \<open>randperm_ok\<close> is the
  library's contract that the list is a permutation of \<open>0, ..., n - 1\<close>.  A negative
  size is rejected by the library.
\<close>

type_synonym 'g randperm = "'g \<Rightarrow> nat \<Rightarrow> nat list \<times> 'g"

definition randperm_ok :: "'g randperm \<Rightarrow> bool" where
  "randperm_ok rp = (\<forall>g n. mset (fst (rp g n)) = mset [0..<n])"

definition torch_randperm :: "'g randperm \<Rightarrow> 'g \<Rightarrow> int \<Rightarrow> error + (int list \<times> 'g)" where
  "torch_randperm rp g n =
     (if n < 0 then Inl RuntimeError
      else (case rp g (nat n) of (p, g') \<Rightarrow> Inr (map int p, g')))"

text \<open>A concrete generator for evaluating the definitions: the state is a counter and
  the draw rotates the identity by it.\<close>

definition rot_randperm :: "nat randperm" where
  "rot_randperm g n = (rotate g [0..<n], Suc g)"

subsection \<open>EpisodicSampler\<close>

record EpisodicSampler =
  total_classes :: int
  n_classes :: int
  n_episode :: int

text \<open>\<open>__init__\<close> stores its three arguments; it has no check and no raise.\<close>

definition EpisodicSampler_init :: "int \<Rightarrow> int \<Rightarrow> int \<Rightarrow> error + EpisodicSampler" where
  "EpisodicSampler_init tc nc ne = Inr \<lparr>total_classes = tc, n_classes = nc, n_episode = ne\<rparr>"

text \<open>
  \<open>__iter__\<close>: the body of \<open>for episode in range(self.n_episode)\<close>, run \<open>k\<close> more
  times from generator state \<open>g\<close>.  Each round draws a fresh permutation and yields its
  first \<open>n_classes\<close> entries.  The sampler itself is only read.
\<close>

fun sampler_loop :: "'g randperm \<Rightarrow> EpisodicSampler \<Rightarrow> nat \<Rightarrow> 'g \<Rightarrow> error + (int list list \<times> 'g)" where
  "sampler_loop rp s 0 g = Inr ([], g)"
| "sampler_loop rp s (Suc k) g =
     (case torch_randperm rp g (total_classes s) of
        Inl e \<Rightarrow> Inl e
      | Inr (random_for_indices_all_tasks, g') \<Rightarrow>
          (let indices_batch_tasks = py_slice_to random_for_indices_all_tasks (n_classes s)
           in case sampler_loop rp s k g' of
                Inl e \<Rightarrow> Inl e
              | Inr (rest, g'') \<Rightarrow> Inr (indices_batch_tasks # rest, g'')))"

definition EpisodicSampler_iter :: "'g randperm \<Rightarrow> EpisodicSampler \<Rightarrow> 'g \<Rightarrow> error + (int list list \<times> 'g)" where
  "EpisodicSampler_iter rp s g = sampler_loop rp s (nat (n_episode s)) g"

definition EpisodicSampler_len :: "EpisodicSampler \<Rightarrow> int" where
  "EpisodicSampler_len s = n_episode s"

text \<open>The two effects of one round of the loop body started in generator state \<open>g\<close>:
  the group it yields, and the generator state it leaves.\<close>

definition round_group :: "'g randperm \<Rightarrow> EpisodicSampler \<Rightarrow> 'g \<Rightarrow> int list" where
  "round_group rp s g = py_slice_to (map int (fst (rp g (nat (total_classes s))))) (n_classes s)"

definition round_state :: "'g randperm \<Rightarrow> EpisodicSampler \<Rightarrow> 'g \<Rightarrow> 'g" where
  "round_state rp s g = snd (rp g (nat (total_classes s)))"

text \<open>
  The same loop for a generator whose draw is not assumed to be a function of its
  state: \<open>draw g n (p, g')\<close> says that in state \<open>g\<close> a permutation draw of size \<open>n\<close> may
  return \<open>p\<close> and leave state \<open>g'\<close>.  \<open>sampler_run draw s k g r\<close> says that \<open>k\<close> more
  rounds from state \<open>g\<close> may end in outcome \<open>r\<close>.  A generator is \<open>seeded\<close> when its state
  fixes the draw.
\<close>

type_synonym 'g draw_rel = "'g \<Rightarrow> nat \<Rightarrow> nat list \<times> 'g \<Rightarrow> bool"

definition seeded :: "'g draw_rel \<Rightarrow> bool" where
  "seeded draw = (\<forall>g n r r'. draw g n r \<longrightarrow> draw g n r' \<longrightarrow> r = r')"

inductive sampler_run ::
  "'g draw_rel \<Rightarrow> EpisodicSampler \<Rightarrow> nat \<Rightarrow> 'g \<Rightarrow> error + (int list list \<times> 'g) \<Rightarrow> bool"
  for draw :: "'g draw_rel" and s :: EpisodicSampler where
  finished: "sampler_run draw s 0 g (Inr ([], g))"
| rejected: "total_classes s < 0 \<Longrightarrow> sampler_run draw s (Suc k) g (Inl RuntimeError)"
| raised: "0 \<le> total_classes s \<Longrightarrow> draw g (nat (total_classes s)) (p, g') \<Longrightarrow>
     sampler_run draw s k g' (Inl e) \<Longrightarrow> sampler_run draw s (Suc k) g (Inl e)"
| yielded: "0 \<le> total_classes s \<Longrightarrow> draw g (nat (total_classes s)) (p, g') \<Longrightarrow>
     sampler_run draw s k g' (Inr (rest, g'')) \<Longrightarrow>
     sampler_run draw s (Suc k) g (Inr (py_slice_to (map int p) (n_classes s) # rest, g''))"

definition EpisodicSampler_runs ::
  "'g draw_rel \<Rightarrow> EpisodicSampler \<Rightarrow> 'g \<Rightarrow> error + (int list list \<times> 'g) \<Rightarrow> bool" where
  "EpisodicSampler_runs draw s g r = sampler_run draw s (nat (n_episode s)) g r"

text \<open>The draw relation of a generator given as a function.\<close>

definition draw_of :: "'g randperm \<Rightarrow> 'g draw_rel" where
  "draw_of rp g n r = (r = rp g n)"

subsection \<open>ClassDataset\<close>

text \<open>
  The \<open>images\<close> attribute is whatever the caller passed: the docstring asks for a list
  of paths, but a Python \<open>str\<close> is a sequence too, whose length is its number of
  characters and whose items are its one-character substrings.
\<close>

datatype pyseq = PyList "string list" | PyStr string

fun py_items :: "pyseq \<Rightarrow> string list" where
  "py_items (PyList ps) = ps"
| "py_items (PyStr s) = map (\<lambda>c. [c]) s"

definition py_len :: "pyseq \<Rightarrow> nat" where
  "py_len q = length (py_items q)"

definition py_getitem :: "pyseq \<Rightarrow> int \<Rightarrow> error + string" where
  "py_getitem q i = py_index (py_items q) i"

record ClassDataset =
  images :: pyseq
  label :: int

text \<open>
  \<open>__getitem__\<close>: decoding (\<open>PIL.Image.open(...).convert('RGB')\<close> followed by the
  transform) is the collaborator \<open>load\<close>, which may raise.
\<close>

definition ClassDataset_getitem ::
  "(string \<Rightarrow> error + 'img) \<Rightarrow> ClassDataset \<Rightarrow> int \<Rightarrow> error + ('img \<times> int)" where
  "ClassDataset_getitem load c idx =
     (case py_getitem (images c) idx of
        Inl e \<Rightarrow> Inl e
      | Inr path \<Rightarrow> (case load path of Inl e \<Rightarrow> Inl e | Inr img \<Rightarrow> Inr (img, label c)))"

definition ClassDataset_len :: "ClassDataset \<Rightarrow> nat" where
  "ClassDataset_len c = py_len (images c)"

subsection \<open>The per-class loader\<close>

text \<open>
  \<open>data.DataLoader(dataset, batch_size=..., shuffle=True, num_workers=0)\<close> is library
  code.  The model keeps what the module relies on.  A non-positive batch size is
  rejected at construction.  \<open>next(iter(loader))\<close> asks the library's random sampler
  for a shuffled order of all indices, takes its first \<open>batch_size\<close> entries (fewer when
  the dataset is smaller, since \<open>drop_last\<close> is off), fetches them in that order, and
  collates the decoded examples and the labels into two parallel sequences.  An empty
  dataset has no first batch.

  How often the sampler consults the generator depends on the sizes, so the shuffle is a
  parameter \<open>od\<close> of the generator state, the dataset length and the batch size that
  returns the order and the generator state after the first batch; \<open>order_ok\<close> is its
  contract.  The default collate function is the parameter \<open>collate_error\<close>: it gives the
  exception raised for decoded examples that cannot be stacked (images that are not
  tensors, tensors of unequal shape) and \<open>None\<close> when they can.
\<close>

record DataLoader =
  dataset :: ClassDataset
  batch_size :: int

definition DataLoader_init :: "ClassDataset \<Rightarrow> int \<Rightarrow> error + DataLoader" where
  "DataLoader_init d bs =
     (if bs \<le> 0 then Inl ValueError else Inr \<lparr>dataset = d, batch_size = bs\<rparr>)"

type_synonym 'g order_draw = "'g \<Rightarrow> nat \<Rightarrow> nat \<Rightarrow> nat list \<times> 'g"

definition order_ok :: "'g order_draw \<Rightarrow> bool" where
  "order_ok od = (\<forall>g n bs. mset (fst (od g n bs)) = mset [0..<n])"

definition DataLoader_next ::
  "(string \<Rightarrow> error + 'img) \<Rightarrow> ('img list \<Rightarrow> error option) \<Rightarrow> 'g order_draw \<Rightarrow> DataLoader \<Rightarrow> 'g
     \<Rightarrow> error + (('img list \<times> int list) \<times> 'g)" where
  "DataLoader_next load collate_error od dl g =
     (case od g (ClassDataset_len (dataset dl)) (nat (batch_size dl)) of
        (order, g') \<Rightarrow>
          (let batch_indices = take (nat (batch_size dl)) order
           in if batch_indices = [] then Inl StopIteration
              else (case sequence_sum
                           (map (\<lambda>i. ClassDataset_getitem load (dataset dl) (int i)) batch_indices) of
                      Inl e \<Rightarrow> Inl e
                    | Inr examples \<Rightarrow>
                        (case collate_error (map fst examples) of
                           Some e \<Rightarrow> Inl e
                         | None \<Rightarrow> Inr ((map fst examples, map snd examples), g')))))"

text \<open>A concrete shuffle for evaluating the definitions: the order is the identity
  rotated by the state, and the state moves on by two.\<close>

definition rot_order :: "nat order_draw" where
  "rot_order g n bs = (rotate g [0..<n], g + 2)"

subsection \<open>MetaSet\_Dataset\<close>

text \<open>\<open>os.path.join\<close> on two components (POSIX).\<close>

definition path_join :: "string \<Rightarrow> string \<Rightarrow> string" where
  "path_join a b =
     (if b \<noteq> [] \<and> hd b = CHR ''/'' then b
      else if a = [] \<or> last a = CHR ''/'' then a @ b
      else a @ ''/'' @ b)"

record MetaSet_Dataset =
  labels :: "string list"
  episode_loader :: "DataLoader list"

text \<open>
  \<open>__init__\<close>: \<open>listdir\<close> (\<open>os.listdir\<close>, which raises when the directory is missing)
  and \<open>glob\<close> (\<open>glob.glob\<close>) are the file system.  The first loop computes the glob
  pattern and the list of matching files of each class, and appends the pattern to
  \<open>meta_set_as_paths\<close>; the second loop wraps entry \<open>idx\<close> in a \<open>ClassDataset\<close> with
  label \<open>idx\<close> and a loader of batch size \<open>k_shot + k_eval\<close>.
\<close>

definition MetaSet_Dataset_init ::
  "(string \<Rightarrow> error + string list) \<Rightarrow> (string \<Rightarrow> string list) \<Rightarrow> string \<Rightarrow> string \<Rightarrow> int \<Rightarrow> int
     \<Rightarrow> error + MetaSet_Dataset" where
  "MetaSet_Dataset_init listdir glob root phase k_shot k_eval =
     (let root' = path_join root phase
      in case listdir root' of
           Inl e \<Rightarrow> Inl e
         | Inr names \<Rightarrow>
             (let labels' = sort names;
                  meta_set_as_paths =
                    map (\<lambda>label'.
                           let path_to_Dt = path_join (path_join root' label') ''*'';
                               list_pathnames_of_images = glob path_to_Dt
                           in PyStr path_to_Dt) labels';
                  nb_examples_for_S_Q = k_shot + k_eval
              in case sequence_sum
                        (map (\<lambda>idx. DataLoader_init
                                       \<lparr>images = meta_set_as_paths ! idx, label = int idx\<rparr>
                                       nb_examples_for_S_Q)
                             [0..<length labels']) of
                   Inl e \<Rightarrow> Inl e
                 | Inr loaders \<Rightarrow> Inr \<lparr>labels = labels', episode_loader = loaders\<rparr>))"

text \<open>\<open>__getitem__\<close>: the first batch of a fresh iterator over the loader of class \<open>idx\<close>.\<close>

definition MetaSet_Dataset_getitem ::
  "(string \<Rightarrow> error + 'img) \<Rightarrow> ('img list \<Rightarrow> error option) \<Rightarrow> 'g order_draw
     \<Rightarrow> MetaSet_Dataset \<Rightarrow> int \<Rightarrow> 'g \<Rightarrow> error + (('img list \<times> int list) \<times> 'g)" where
  "MetaSet_Dataset_getitem load collate_error od ds idx g =
     (case py_index (episode_loader ds) idx of
        Inl e \<Rightarrow> Inl e
      | Inr Dt_task_dataloader \<Rightarrow> DataLoader_next load collate_error od Dt_task_dataloader g)"

definition MetaSet_Dataset_len :: "MetaSet_Dataset \<Rightarrow> nat" where
  "MetaSet_Dataset_len ds = length (labels ds)"

subsection \<open>Support/query split\<close>

text \<open>
  A batch tensor of shape \<open>[N, B, C, H, W]\<close> is a list of \<open>N\<close> rows of \<open>B\<close> examples;
  an example (one \<open>[C, H, W]\<close> block) is a value of the type parameter.  Moving to a
  device changes nothing.
\<close>

record args =
  args_n_classes :: int
  args_k_shot :: int
  args_k_eval :: int

text \<open>\<open>torch.tensor([i]).repeat(k)\<close> rejects a negative count.\<close>

definition tensor_repeat :: "int \<Rightarrow> int \<Rightarrow> error + int list" where
  "tensor_repeat i k = (if k < 0 then Inl RuntimeError else Inr (replicate (nat k) i))"

text \<open>\<open>torch.stack\<close> of a list of rows rejects the empty list.\<close>

definition torch_stack :: "'a list \<Rightarrow> error + 'a list" where
  "torch_stack rows = (if rows = [] then Inl RuntimeError else Inr rows)"

text \<open>\<open>np.repeat(xs, k)\<close> repeats each element \<open>k\<close> times in place.\<close>

definition np_repeat :: "int list \<Rightarrow> int \<Rightarrow> error + int list" where
  "np_repeat xs k = (if k < 0 then Inl ValueError else Inr (concat (map (replicate (nat k)) xs)))"

definition get_support_query_batch_of_tasks_class_is_task_M_eq_N ::
  "args \<Rightarrow> 'a list list \<Rightarrow> int list list
     \<Rightarrow> error + ('a list list \<times> int list list \<times> 'a list list \<times> int list list)" where
  "get_support_query_batch_of_tasks_class_is_task_M_eq_N a SQ_x SQ_y =
     (let list_classes = py_range (args_n_classes a);
          S_x = map (\<lambda>row. py_slice_to row (args_k_shot a)) SQ_x
      in case sequence_sum (map (\<lambda>i. tensor_repeat i (args_k_shot a)) list_classes) of
           Inl e \<Rightarrow> Inl e
         | Inr s_rows \<Rightarrow>
        (case torch_stack s_rows of
           Inl e \<Rightarrow> Inl e
         | Inr S_y \<Rightarrow>
        (let Q_x = map (\<lambda>row. py_slice_from row (args_k_shot a)) SQ_x
         in case sequence_sum (map (\<lambda>i. tensor_repeat i (args_k_eval a)) list_classes) of
              Inl e \<Rightarrow> Inl e
            | Inr q_rows \<Rightarrow>
           (case torch_stack q_rows of
              Inl e \<Rightarrow> Inl e
            | Inr Q_y \<Rightarrow> Inr (S_x, S_y, Q_x, Q_y)))))"

text \<open>The flattening \<open>reshape(-1, C, H, W)\<close> concatenates the rows.\<close>

definition get_support_query_set_for_data_set_is_task ::
  "args \<Rightarrow> 'a list list \<Rightarrow> int list list
     \<Rightarrow> error + ('a list \<times> int list \<times> 'a list \<times> int list)" where
  "get_support_query_set_for_data_set_is_task a SQ_x SQ_y =
     (let list_classes = py_range (args_n_classes a);
          S_x = map (\<lambda>row. py_slice_to row (args_k_shot a)) SQ_x
      in case np_repeat list_classes (args_k_shot a) of
           Inl e \<Rightarrow> Inl e
         | Inr S_y \<Rightarrow>
        (let Q_x = map (\<lambda>row. py_slice_from row (args_k_shot a)) SQ_x
         in case np_repeat list_classes (args_k_eval a) of
              Inl e \<Rightarrow> Inl e
            | Inr Q_y \<Rightarrow> Inr (concat S_x, S_y, concat Q_x, Q_y)))"

subsection \<open>A small file system for evaluation\<close>

text \<open>
  \<open>data/train\<close> holds the class directories \<open>dog\<close> (one image file) and \<open>cat\<close> (two
  image files), \<open>data/val\<close> exists and is empty, and the working directory holds three
  more image files named \<open>d\<close>, \<open>a\<close> and \<open>t\<close>.  Nothing else exists.  The decoder
  returns the path of an image file as the decoded example and raises for every other
  path.  The transform yields tensors of one shape, so every batch collates.
\<close>

definition fs_listdir :: "string \<Rightarrow> error + string list" where
  "fs_listdir p =
     (if p = ''data/train'' then Inr [''dog'', ''cat'']
      else if p = ''data/val'' then Inr []
      else Inl (OSError p))"

definition fs_glob :: "string \<Rightarrow> string list" where
  "fs_glob p =
     (if p = ''data/train/cat/*'' then [''data/train/cat/1.jpg'', ''data/train/cat/0.jpg'']
      else if p = ''data/train/dog/*'' then [''data/train/dog/0.jpg'']
      else [])"

definition fs_load :: "string \<Rightarrow> error + string" where
  "fs_load p =
     (if p \<in> set [''data/train/cat/0.jpg'', ''data/train/cat/1.jpg'', ''data/train/dog/0.jpg'',
                   ''d'', ''a'', ''t'']
      then Inr p else Inl (OSError p))"

definition fs_collate :: "string list \<Rightarrow> error option" where
  "fs_collate examples = None"

text \<open>The dataset object that construction builds from \<open>data/train\<close> with
  \<open>k_shot = 1\<close> and \<open>k_eval = 2\<close>.\<close>

definition fs_train_set :: MetaSet_Dataset where
  "fs_train_set =
     \<lparr>labels = [''cat'', ''dog''],
      episode_loader =
        [\<lparr>dataset = \<lparr>images = PyStr ''data/train/cat/*'', label = 0\<rparr>, batch_size = 3\<rparr>,
         \<lparr>dataset = \<lparr>images = PyStr ''data/train/dog/*'', label = 1\<rparr>, batch_size = 3\<rparr>]\<rparr>"

text \<open>The dataset object that construction builds from \<open>data/train\<close> with
  \<open>k_shot = 5\<close> and \<open>k_eval = 15\<close>.\<close>

definition fs_train_set_20 :: MetaSet_Dataset where
  "fs_train_set_20 =
     \<lparr>labels = [''cat'', ''dog''],
      episode_loader =
        [\<lparr>dataset = \<lparr>images = PyStr ''data/train/cat/*'', label = 0\<rparr>, batch_size = 20\<rparr>,
         \<lparr>dataset = \<lparr>images = PyStr ''data/train/dog/*'', label = 1\<rparr>, batch_size = 20\<rparr>]\<rparr>"

section \<open>Properties of the sampler\<close>

lemma rot_randperm_ok: "randperm_ok rot_randperm"
proof -
  have "mset (rotate g xs) = mset xs" for g and xs :: "nat list"
  proof -
    have "mset (drop k xs @ take k xs) = mset (take k xs @ drop k xs)" for k
      by (simp only: mset_append add.commute)
    then show ?thesis by (simp add: rotate_drop_take)
  qed
  then show ?thesis by (simp add: randperm_ok_def rot_randperm_def)
qed

lemma randperm_ok_length: "randperm_ok rp \<Longrightarrow> length (fst (rp g n)) = n"
  by (metis randperm_ok_def size_mset length_upt diff_zero)

lemma randperm_ok_distinct: "randperm_ok rp \<Longrightarrow> distinct (fst (rp g n))"
  by (metis randperm_ok_def distinct_upt mset_eq_imp_distinct_iff)

lemma randperm_ok_set: "randperm_ok rp \<Longrightarrow> set (fst (rp g n)) = {0..<n}"
  by (metis randperm_ok_def set_mset_mset set_upt)

lemma torch_randperm_ok:
  assumes "0 \<le> n"
  shows "\<exists>p g'. torch_randperm rp g n = Inr (p, g') \<and> p = map int (fst (rp g (nat n))) \<and> g' = snd (rp g (nat n))"
  using assms by (simp add: torch_randperm_def split: prod.splits)

lemma sampler_loop_total:
  assumes "0 \<le> total_classes s"
  shows "\<exists>groups g'. sampler_loop rp s k g = Inr (groups, g') \<and> length groups = k"
proof (induction k arbitrary: g)
  case 0
  show ?case by simp
next
  case (Suc k)
  obtain p g1 where p: "torch_randperm rp g (total_classes s) = Inr (p, g1)"
    using torch_randperm_ok [OF assms, of rp g] by blast
  obtain rest g2 where r: "sampler_loop rp s k g1 = Inr (rest, g2)" "length rest = k"
    using Suc.IH [of g1] by blast
  show ?case using p r by simp
qed

lemma sampler_loop_groups:
  assumes "sampler_loop rp s k g = Inr (groups, g')" and "grp \<in> set groups"
  shows "\<exists>g0. grp = py_slice_to (map int (fst (rp g0 (nat (total_classes s))))) (n_classes s)
           \<and> 0 \<le> total_classes s"
  using assms
proof (induction k arbitrary: g groups g')
  case 0
  then show ?case by simp
next
  case (Suc k)
  from Suc.prems(1) have tc: "0 \<le> total_classes s"
    by (auto simp: torch_randperm_def split: if_splits)
  obtain p g1 where p: "rp g (nat (total_classes s)) = (p, g1)"
    by (cases "rp g (nat (total_classes s))")
  from Suc.prems(1) tc p obtain rest g2 where
    rest: "sampler_loop rp s k g1 = Inr (rest, g2)"
      and groups: "groups = py_slice_to (map int p) (n_classes s) # rest"
    by (auto simp: torch_randperm_def Let_def split: sum.splits prod.splits)
  show ?case
  proof (cases "grp \<in> set rest")
    case True
    then show ?thesis using Suc.IH [OF rest] by blast
  next
    case False
    then have "grp = py_slice_to (map int (fst (rp g (nat (total_classes s))))) (n_classes s)"
      using Suc.prems(2) groups p by simp
    then show ?thesis using tc by blast
  qed
qed

lemma slice_of_perm:
  assumes ok: "randperm_ok rp" and n: "0 < n" "n \<le> t"
  shows "int (length (py_slice_to (map int (fst (rp g (nat t)))) n)) = n"
    and "distinct (py_slice_to (map int (fst (rp g (nat t)))) n)"
    and "set (py_slice_to (map int (fst (rp g (nat t)))) n) \<subseteq> {0..<t}"
proof -
  let ?p = "fst (rp g (nat t))"
  have len: "length ?p = nat t" by (rule randperm_ok_length [OF ok])
  have sl: "py_slice_to (map int ?p) n = take (nat n) (map int ?p)"
    using n by (simp add: py_slice_to_def)
  show "int (length (py_slice_to (map int ?p) n)) = n"
    using n len by (simp add: sl)
  have "distinct (map int ?p)"
    by (simp add: distinct_map randperm_ok_distinct [OF ok])
  then show "distinct (py_slice_to (map int ?p) n)"
    by (simp add: sl)
  have "set (map int ?p) \<subseteq> {0..<t}"
    using randperm_ok_set [OF ok, of g "nat t"] by auto
  then show "set (py_slice_to (map int ?p) n) \<subseteq> {0..<t}"
    unfolding sl using set_take_subset by fast
qed

text \<open>
  C1.  A sampler built with \<open>0 < n_classes \<le> total_classes\<close> and \<open>n_episode \<ge> 0\<close>
  iterates without error, and every group it yields has exactly \<open>n_classes\<close> entries,
  pairwise distinct, each in \<open>[0, total_classes)\<close>.
\<close>

theorem sampler_groups_distinct_in_range:
  assumes "randperm_ok rp" and "0 < nc" and "nc \<le> tc" and "0 \<le> ne"
  shows "\<exists>s groups g'.
           EpisodicSampler_init tc nc ne = Inr s \<and>
           EpisodicSampler_iter rp s g = Inr (groups, g') \<and>
           (\<forall>grp \<in> set groups.
              int (length grp) = nc \<and> distinct grp \<and> (\<forall>i \<in> set grp. 0 \<le> i \<and> i < tc))"
proof -
  let ?s = "\<lparr>total_classes = tc, n_classes = nc, n_episode = ne\<rparr>"
  have tc: "0 \<le> total_classes ?s" using assms by simp
  obtain groups g' where it: "sampler_loop rp ?s (nat ne) g = Inr (groups, g')"
    using sampler_loop_total [OF tc, of rp "nat ne" g] by blast
  have "int (length grp) = nc \<and> distinct grp \<and> (\<forall>i \<in> set grp. 0 \<le> i \<and> i < tc)"
    if mem: "grp \<in> set groups" for grp
  proof -
    obtain g0 where "grp = py_slice_to (map int (fst (rp g0 (nat tc)))) nc"
      using sampler_loop_groups [OF it mem] by auto
    then show ?thesis
      using slice_of_perm [OF assms(1) assms(2) assms(3), of g0] by auto
  qed
  then show ?thesis
    using it by (simp add: EpisodicSampler_init_def EpisodicSampler_iter_def)
qed

theorem sampler_groups_distinct_in_range_witness:
  "randperm_ok rot_randperm \<and> (0::int) < 2 \<and> (2::int) \<le> 3 \<and> (0::int) \<le> 2 \<and>
   (\<exists>s groups g'.
      EpisodicSampler_init 3 2 2 = Inr s \<and>
      EpisodicSampler_iter rot_randperm s (1::nat) = Inr (groups, g') \<and>
      (\<forall>grp \<in> set groups.
         int (length grp) = 2 \<and> distinct grp \<and> (\<forall>i \<in> set grp. 0 \<le> i \<and> i < 3)))"
  using sampler_groups_distinct_in_range [OF rot_randperm_ok, of 2 3 2 1] rot_randperm_ok
  by simp

lemma sampler_iter_runs:
  assumes "0 \<le> total_classes s \<or> n_episode s \<le> 0"
  shows "\<exists>groups g'. EpisodicSampler_iter rp s g = Inr (groups, g') \<and> length groups = nat (n_episode s)"
proof (cases "0 \<le> total_classes s")
  case True
  then show ?thesis
    unfolding EpisodicSampler_iter_def
    using sampler_loop_total [of s rp "nat (n_episode s)" g] by simp
next
  case False
  then have "nat (n_episode s) = 0" using assms by simp
  then show ?thesis by (simp add: EpisodicSampler_iter_def)
qed

text \<open>
  C6 as stated fails: the constructor accepts a negative \<open>total_classes\<close>, and with
  \<open>n_episode = 2\<close> the iteration of that sampler raises at its first permutation draw
  instead of yielding two groups.
\<close>

theorem sampler_iter_negative_total_counterexample:
  "EpisodicSampler_init (- 1) 5 2 = Inr \<lparr>total_classes = - 1, n_classes = 5, n_episode = 2\<rparr> \<and>
   0 \<le> n_episode \<lparr>total_classes = - 1, n_classes = 5, n_episode = 2\<rparr> \<and>
   EpisodicSampler_iter rot_randperm \<lparr>total_classes = - 1, n_classes = 5, n_episode = 2\<rparr> (0::nat)
     = Inl RuntimeError"
  by code_simp

lemma sampler_loop_closed_form:
  assumes "0 \<le> total_classes s \<or> k = 0"
  shows "sampler_loop rp s k g =
           Inr (map (\<lambda>i. round_group rp s ((round_state rp s ^^ i) g)) [0..<k],
                (round_state rp s ^^ k) g)"
  using assms
proof (induction k arbitrary: g)
  case 0
  show ?case by simp
next
  case (Suc k)
  then have tc: "0 \<le> total_classes s" by simp
  let ?g1 = "round_state rp s g"
  have draw: "torch_randperm rp g (total_classes s)
                = Inr (map int (fst (rp g (nat (total_classes s)))), ?g1)"
    using tc by (simp add: torch_randperm_def round_state_def split: prod.splits)
  have ih: "sampler_loop rp s k ?g1 =
              Inr (map (\<lambda>i. round_group rp s ((round_state rp s ^^ i) ?g1)) [0..<k],
                   (round_state rp s ^^ k) ?g1)"
    using Suc.IH [of ?g1] tc by simp
  have shift: "(round_state rp s ^^ i) ?g1 = (round_state rp s ^^ Suc i) g" for i
    by (simp add: funpow_swap1)
  have upt: "[0..<Suc k] = 0 # map Suc [0..<k]"
    by (simp add: upt_conv_Cons map_Suc_upt del: upt_Suc)
  have "sampler_loop rp s (Suc k) g =
          Inr (round_group rp s g # map (\<lambda>i. round_group rp s ((round_state rp s ^^ Suc i) g)) [0..<k],
               (round_state rp s ^^ Suc k) g)"
    using draw ih by (simp add: round_group_def shift del: funpow.simps)
  also have "round_group rp s g # map (\<lambda>i. round_group rp s ((round_state rp s ^^ Suc i) g)) [0..<k]
               = map (\<lambda>i. round_group rp s ((round_state rp s ^^ i) g)) [0..<Suc k]"
    unfolding upt by (simp add: comp_def del: funpow.simps upt_Suc)
  finally show ?case .
qed

text \<open>
  C6, amended.  With \<open>n_episode \<ge> 0\<close> and a \<open>total_classes\<close> that the permutation draw
  accepts (or no round at all), one full iteration yields exactly \<open>n_episode\<close> groups,
  one per generator draw, and \<open>__len__\<close> returns \<open>n_episode\<close>.  The sampler keeps no
  cursor: iterating it again from the generator state the first pass left yields
  \<open>n_episode\<close> further groups, made from the next \<open>n_episode\<close> draws of the generator.
  For \<open>n_episode = 0\<close> the sequence is empty and nothing is raised.
\<close>

theorem sampler_iter_passes:
  assumes "0 \<le> n_episode s" and "0 \<le> total_classes s \<or> n_episode s = 0"
  shows "\<exists>groups1 g1 groups2 g2.
           EpisodicSampler_iter rp s g = Inr (groups1, g1) \<and>
           int (length groups1) = n_episode s \<and>
           EpisodicSampler_len s = n_episode s \<and>
           groups1 = map (\<lambda>k. round_group rp s ((round_state rp s ^^ k) g))
                         [0..<nat (n_episode s)] \<and>
           g1 = (round_state rp s ^^ nat (n_episode s)) g \<and>
           EpisodicSampler_iter rp s g1 = Inr (groups2, g2) \<and>
           int (length groups2) = n_episode s \<and>
           groups2 = map (\<lambda>k. round_group rp s ((round_state rp s ^^ (nat (n_episode s) + k)) g))
                         [0..<nat (n_episode s)] \<and>
           g2 = (round_state rp s ^^ (2 * nat (n_episode s))) g"
proof -
  let ?n = "nat (n_episode s)"
  let ?f = "round_state rp s"
  have pre: "0 \<le> total_classes s \<or> ?n = 0" using assms(2) by auto
  let ?g1 = "(?f ^^ ?n) g"
  have r1: "EpisodicSampler_iter rp s g
              = Inr (map (\<lambda>k. round_group rp s ((?f ^^ k) g)) [0..<?n], ?g1)"
    unfolding EpisodicSampler_iter_def by (rule sampler_loop_closed_form [OF pre])
  have r2: "EpisodicSampler_iter rp s ?g1
              = Inr (map (\<lambda>k. round_group rp s ((?f ^^ k) ?g1)) [0..<?n], (?f ^^ ?n) ?g1)"
    unfolding EpisodicSampler_iter_def by (rule sampler_loop_closed_form [OF pre])
  have add: "(?f ^^ k) ?g1 = (?f ^^ (?n + k)) g" for k
    by (simp add: funpow_add add.commute)
  have two: "(?f ^^ ?n) ?g1 = (?f ^^ (2 * ?n)) g"
    using add [of ?n] by (simp add: mult_2)
  have r2': "EpisodicSampler_iter rp s ?g1
              = Inr (map (\<lambda>k. round_group rp s ((?f ^^ (?n + k)) g)) [0..<?n], (?f ^^ (2 * ?n)) g)"
    using r2 by (simp only: add mult_2)
  have len: "int ?n = n_episode s" using assms(1) by simp
  show ?thesis
    using r1 r2' len by (simp add: EpisodicSampler_len_def)
qed

theorem sampler_iter_passes_witness:
  "0 \<le> n_episode \<lparr>total_classes = 10, n_classes = 5, n_episode = 3\<rparr> \<and>
   EpisodicSampler_iter rot_randperm \<lparr>total_classes = 10, n_classes = 5, n_episode = 3\<rparr> (42::nat)
     = Inr ([[2, 3, 4, 5, 6], [3, 4, 5, 6, 7], [4, 5, 6, 7, 8]], 45) \<and>
   EpisodicSampler_iter rot_randperm \<lparr>total_classes = 10, n_classes = 5, n_episode = 3\<rparr> (45::nat)
     = Inr ([[5, 6, 7, 8, 9], [6, 7, 8, 9, 0], [7, 8, 9, 0, 1]], 48) \<and>
   EpisodicSampler_iter rot_randperm \<lparr>total_classes = - 1, n_classes = 5, n_episode = 0\<rparr> (42::nat)
     = Inr ([], 42)"
proof -
  let ?s = "\<lparr>total_classes = 10, n_classes = 5, n_episode = 3\<rparr>"
  let ?z = "\<lparr>total_classes = - 1, n_classes = 5, n_episode = 0\<rparr>"
  have h: "0 \<le> n_episode ?s" "0 \<le> total_classes ?s \<or> n_episode ?s = 0" by simp_all
  obtain groups1 g1 groups2 g2 where
    p1: "EpisodicSampler_iter rot_randperm ?s (42::nat) = Inr (groups1, g1)"
    and p2: "EpisodicSampler_iter rot_randperm ?s g1 = Inr (groups2, g2)"
    and l2: "int (length groups2) = n_episode ?s"
    using sampler_iter_passes [OF h, of rot_randperm 42] by blast
  have e1: "EpisodicSampler_iter rot_randperm ?s (42::nat)
      = Inr ([[2, 3, 4, 5, 6], [3, 4, 5, 6, 7], [4, 5, 6, 7, 8]], 45)"
    by code_simp
  have e2: "EpisodicSampler_iter rot_randperm ?s (45::nat)
      = Inr ([[5, 6, 7, 8, 9], [6, 7, 8, 9, 0], [7, 8, 9, 0, 1]], 48)"
    by code_simp
  have hz: "0 \<le> n_episode ?z" "0 \<le> total_classes ?z \<or> n_episode ?z = 0" by simp_all
  obtain groups3 g3 where
    p3: "EpisodicSampler_iter rot_randperm ?z (42::nat) = Inr (groups3, g3)"
    and l3: "int (length groups3) = n_episode ?z"
    and s3: "g3 = (round_state rot_randperm ?z ^^ nat (n_episode ?z)) 42"
    using sampler_iter_passes [OF hz, of rot_randperm 42] by blast
  have e3: "EpisodicSampler_iter rot_randperm ?z (42::nat) = Inr ([], 42)"
    using p3 l3 s3 by simp
  show ?thesis using p1 p2 l2 e1 e2 e3 by simp
qed

inductive_simps sampler_run_0_iff: "sampler_run draw s 0 g r"

inductive_simps sampler_run_Suc_iff: "sampler_run draw s (Suc k) g r"

lemma sampler_run_functional:
  assumes sd: "seeded draw"
  shows "sampler_run draw s k g r1 \<Longrightarrow> sampler_run draw s k g r2 \<Longrightarrow> r1 = r2"
proof (induction k arbitrary: g r1 r2)
  case 0
  then show ?case by (simp add: sampler_run_0_iff)
next
  case (Suc k)
  have same: "p1 = p2 \<and> g1 = g2"
    if "draw g (nat (total_classes s)) (p1, g1)" and "draw g (nat (total_classes s)) (p2, g2)"
    for p1 g1 p2 g2
    using sd that unfolding seeded_def by blast
  from Suc.prems(1) consider
      (rej1) "total_classes s < 0" "r1 = Inl RuntimeError"
    | (err1) p g' e where "0 \<le> total_classes s" "draw g (nat (total_classes s)) (p, g')"
        "sampler_run draw s k g' (Inl e)" "r1 = Inl e"
    | (ok1) p g' rest g'' where "0 \<le> total_classes s" "draw g (nat (total_classes s)) (p, g')"
        "sampler_run draw s k g' (Inr (rest, g''))"
        "r1 = Inr (py_slice_to (map int p) (n_classes s) # rest, g'')"
    unfolding sampler_run_Suc_iff by blast
  note c1 = this
  from Suc.prems(2) consider
      (rej2) "total_classes s < 0" "r2 = Inl RuntimeError"
    | (err2) p g' e where "0 \<le> total_classes s" "draw g (nat (total_classes s)) (p, g')"
        "sampler_run draw s k g' (Inl e)" "r2 = Inl e"
    | (ok2) p g' rest g'' where "0 \<le> total_classes s" "draw g (nat (total_classes s)) (p, g')"
        "sampler_run draw s k g' (Inr (rest, g''))"
        "r2 = Inr (py_slice_to (map int p) (n_classes s) # rest, g'')"
    unfolding sampler_run_Suc_iff by blast
  note c2 = this
  show ?case
  proof (cases rule: c1)
    case rej1
    then show ?thesis by (cases rule: c2) simp_all
  next
    case (err1 p g' e)
    show ?thesis
    proof (cases rule: c2)
      case rej2
      then show ?thesis using err1 by simp
    next
      case (err2 p2 g2 e2)
      have "p = p2 \<and> g' = g2" by (rule same [OF err1(2) err2(2)])
      then have "Inl e = (Inl e2 :: error + (int list list \<times> 'a))"
        using Suc.IH [OF err1(3)] err2(3) by simp
      then show ?thesis using err1(4) err2(4) by simp
    next
      case (ok2 p2 g2 rest2 g2')
      have "p = p2 \<and> g' = g2" by (rule same [OF err1(2) ok2(2)])
      then have "Inl e = (Inr (rest2, g2') :: error + (int list list \<times> 'a))"
        using Suc.IH [OF err1(3)] ok2(3) by simp
      then show ?thesis by simp
    qed
  next
    case (ok1 p g' rest g'')
    show ?thesis
    proof (cases rule: c2)
      case rej2
      then show ?thesis using ok1 by simp
    next
      case (err2 p2 g2 e2)
      have "p = p2 \<and> g' = g2" by (rule same [OF ok1(2) err2(2)])
      then have "Inr (rest, g'') = (Inl e2 :: error + (int list list \<times> 'a))"
        using Suc.IH [OF ok1(3)] err2(3) by simp
      then show ?thesis by simp
    next
      case (ok2 p2 g2 rest2 g2')
      have pg: "p = p2 \<and> g' = g2" by (rule same [OF ok1(2) ok2(2)])
      then have "Inr (rest, g'') = (Inr (rest2, g2') :: error + (int list list \<times> 'a))"
        using Suc.IH [OF ok1(3)] ok2(3) by simp
      then show ?thesis using pg ok1(4) ok2(4) by simp
    qed
  qed
qed

lemma seeded_draw_of: "seeded (draw_of rp)"
  by (simp add: seeded_def draw_of_def)

lemma sampler_run_loop: "sampler_run (draw_of rp) s k g (sampler_loop rp s k g)"
proof (induction k arbitrary: g)
  case 0
  show ?case by (simp add: sampler_run.finished)
next
  case (Suc k)
  show ?case
  proof (cases "total_classes s < 0")
    case True
    then show ?thesis by (simp add: torch_randperm_def sampler_run.rejected)
  next
    case False
    then have tc: "0 \<le> total_classes s" by simp
    obtain p g' where d: "rp g (nat (total_classes s)) = (p, g')"
      by (cases "rp g (nat (total_classes s))")
    then have dr: "draw_of rp g (nat (total_classes s)) (p, g')"
      by (simp add: draw_of_def)
    show ?thesis
    proof (cases "sampler_loop rp s k g'")
      case (Inl e)
      then have "sampler_run (draw_of rp) s (Suc k) g (Inl e)"
        using sampler_run.raised [where draw = "draw_of rp", OF tc dr] Suc.IH [of g'] by simp
      then show ?thesis using tc d Inl by (simp add: torch_randperm_def)
    next
      case (Inr b)
      obtain rest g'' where b: "b = (rest, g'')" by (cases b)
      have "sampler_run (draw_of rp) s (Suc k) g
              (Inr (py_slice_to (map int p) (n_classes s) # rest, g''))"
        using sampler_run.yielded [where draw = "draw_of rp", OF tc dr] Suc.IH [of g'] Inr b by simp
      then show ?thesis using tc d Inr b by (simp add: torch_randperm_def)
    qed
  qed
qed

lemma EpisodicSampler_runs_iter:
  "EpisodicSampler_runs (draw_of rp) s g r \<longleftrightarrow> r = EpisodicSampler_iter rp s g"
  unfolding EpisodicSampler_runs_def EpisodicSampler_iter_def
  using sampler_run_functional [OF seeded_draw_of] sampler_run_loop by metis

text \<open>
  C7.  With a seeded generator (its state fixes each draw), any two runs of the full
  iteration that start from the same generator state, on samplers built independently
  from the same parameters, end in the same outcome: the same sequence of groups and the
  same final generator state, or the same error.  The loop adds no other source of
  variation to the draws.
\<close>

theorem sampler_runs_deterministic:
  assumes "seeded draw"
    and "EpisodicSampler_init tc nc ne = Inr s1"
    and "EpisodicSampler_init tc nc ne = Inr s2"
    and "EpisodicSampler_runs draw s1 seed run1"
    and "EpisodicSampler_runs draw s2 seed run2"
  shows "run1 = run2"
proof -
  have "s1 = s2" using assms(2,3) by simp
  then show ?thesis
    using assms(4,5) sampler_run_functional [OF assms(1)]
    unfolding EpisodicSampler_runs_def by blast
qed

theorem sampler_runs_deterministic_witness:
  "EpisodicSampler_init 10 5 3 = Inr \<lparr>total_classes = 10, n_classes = 5, n_episode = 3\<rparr> \<and>
   EpisodicSampler_runs (draw_of rot_randperm)
     \<lparr>total_classes = 10, n_classes = 5, n_episode = 3\<rparr> (42::nat)
     (Inr ([[2, 3, 4, 5, 6], [3, 4, 5, 6, 7], [4, 5, 6, 7, 8]], 45)) \<and>
   EpisodicSampler_runs (draw_of rot_randperm)
     \<lparr>total_classes = 10, n_classes = 5, n_episode = 3\<rparr> (42::nat)
     (EpisodicSampler_iter rot_randperm \<lparr>total_classes = 10, n_classes = 5, n_episode = 3\<rparr> 42) \<and>
   Inr ([[2, 3, 4, 5, 6], [3, 4, 5, 6, 7], [4, 5, 6, 7, 8]], 45)
     = EpisodicSampler_iter rot_randperm \<lparr>total_classes = 10, n_classes = 5, n_episode = 3\<rparr> (42::nat)"
proof -
  let ?s = "\<lparr>total_classes = 10, n_classes = 5, n_episode = 3\<rparr>"
  let ?r = "Inr ([[2, 3, 4, 5, 6], [3, 4, 5, 6, 7], [4, 5, 6, 7, 8]], 45)
              :: error + (int list list \<times> nat)"
  have i: "EpisodicSampler_init 10 5 3 = Inr ?s"
    by (simp add: EpisodicSampler_init_def)
  have e: "EpisodicSampler_iter rot_randperm ?s (42::nat) = ?r"
    by code_simp
  have run1: "EpisodicSampler_runs (draw_of rot_randperm) ?s 42 ?r"
    using e by (simp add: EpisodicSampler_runs_iter)
  have run2: "EpisodicSampler_runs (draw_of rot_randperm) ?s 42
                (EpisodicSampler_iter rot_randperm ?s 42)"
    by (simp add: EpisodicSampler_runs_iter)
  have "?r = EpisodicSampler_iter rot_randperm ?s 42"
    by (rule sampler_runs_deterministic [OF seeded_draw_of i i run1 run2])
  then show ?thesis using i run1 run2 by blast
qed

text \<open>
  C8 as stated fails: the constructor accepts \<open>n_classes > total_classes\<close> and a
  negative \<open>n_classes\<close>, and the samplers it returns yield groups.
\<close>

theorem sampler_init_accepts_invalid_counterexample:
  "EpisodicSampler_init 3 5 2 = Inr \<lparr>total_classes = 3, n_classes = 5, n_episode = 2\<rparr> \<and>
   EpisodicSampler_iter rot_randperm \<lparr>total_classes = 3, n_classes = 5, n_episode = 2\<rparr> (0::nat)
     = Inr ([[0, 1, 2], [1, 2, 0]], 2) \<and>
   EpisodicSampler_init 4 (- 1) 2 = Inr \<lparr>total_classes = 4, n_classes = - 1, n_episode = 2\<rparr> \<and>
   EpisodicSampler_iter rot_randperm \<lparr>total_classes = 4, n_classes = - 1, n_episode = 2\<rparr> (1::nat)
     = Inr ([[1, 2, 3], [2, 3, 0]], 3)"
  by code_simp

lemma slice_beyond_perm:
  assumes ok: "randperm_ok rp" and n: "0 \<le> t" "t < n"
  shows "py_slice_to (map int (fst (rp g (nat t)))) n = map int (fst (rp g (nat t)))"
  using n randperm_ok_length [OF ok, of g "nat t"] by (simp add: py_slice_to_def)

text \<open>
  C8, amended.  Construction never fails and stores the three parameters as given.  With
  \<open>n_classes > total_classes \<ge> 0\<close> and \<open>n_episode \<ge> 0\<close> the sampler yields
  \<open>n_episode\<close> groups, each a whole permutation of \<open>[0, total_classes)\<close>.
\<close>

theorem sampler_init_no_validation:
  assumes "randperm_ok rp" and "0 \<le> tc" and "tc < nc" and "0 \<le> ne"
  shows "(\<forall>a b c. EpisodicSampler_init a b c
                    = Inr \<lparr>total_classes = a, n_classes = b, n_episode = c\<rparr>) \<and>
         (\<exists>s groups g'.
            EpisodicSampler_init tc nc ne = Inr s \<and>
            EpisodicSampler_iter rp s g = Inr (groups, g') \<and>
            int (length groups) = ne \<and>
            (\<forall>grp \<in> set groups. int (length grp) = tc \<and> distinct grp \<and> set grp = {0..<tc}))"
proof -
  let ?s = "\<lparr>total_classes = tc, n_classes = nc, n_episode = ne\<rparr>"
  have pre: "0 \<le> total_classes ?s \<or> n_episode ?s \<le> 0" using assms(2) by simp
  obtain groups g' where
    it: "EpisodicSampler_iter rp ?s g = Inr (groups, g')" and len: "length groups = nat (n_episode ?s)"
    using sampler_iter_runs [OF pre, of rp g] by blast
  have "int (length grp) = tc \<and> distinct grp \<and> set grp = {0..<tc}"
    if mem: "grp \<in> set groups" for grp
  proof -
    from it have lp: "sampler_loop rp ?s (nat ne) g = Inr (groups, g')"
      by (simp add: EpisodicSampler_iter_def)
    obtain g0 where "grp = py_slice_to (map int (fst (rp g0 (nat tc)))) nc"
      using sampler_loop_groups [OF lp mem] by auto
    then have grp: "grp = map int (fst (rp g0 (nat tc)))"
      using slice_beyond_perm [OF assms(1) assms(2) assms(3)] by simp
    have "set grp = int ` {0..<nat tc}"
      using randperm_ok_set [OF assms(1), of g0 "nat tc"] by (simp add: grp)
    also have "\<dots> = {0..<tc}"
    proof (intro set_eqI iffI)
      fix x assume "x \<in> int ` {0..<nat tc}"
      then show "x \<in> {0..<tc}" by auto
    next
      fix x assume "x \<in> {0..<tc}"
      then have "x = int (nat x)" "nat x \<in> {0..<nat tc}" by auto
      then show "x \<in> int ` {0..<nat tc}" by (rule image_eqI)
    qed
    finally have "set grp = {0..<tc}" .
    then show ?thesis
      using assms(2) randperm_ok_length [OF assms(1), of g0 "nat tc"]
        randperm_ok_distinct [OF assms(1), of g0 "nat tc"]
      by (simp add: grp distinct_map)
  qed
  then show ?thesis
    using it len assms(4) by (auto simp: EpisodicSampler_init_def)
qed

theorem sampler_init_no_validation_witness:
  "randperm_ok rot_randperm \<and> (0::int) \<le> 3 \<and> (3::int) < 5 \<and> (0::int) \<le> 2 \<and>
   (\<exists>s groups g'.
      EpisodicSampler_init 3 5 2 = Inr s \<and>
      EpisodicSampler_iter rot_randperm s (0::nat) = Inr (groups, g') \<and>
      int (length groups) = 2 \<and>
      (\<forall>grp \<in> set groups. int (length grp) = 3 \<and> distinct grp \<and> set grp = {0..<3}))"
proof -
  have h: "(0::int) \<le> 3" "(3::int) < 5" "(0::int) \<le> 2" by simp_all
  have "\<exists>s groups g'.
      EpisodicSampler_init 3 5 2 = Inr s \<and>
      EpisodicSampler_iter rot_randperm s (0::nat) = Inr (groups, g') \<and>
      int (length groups) = 2 \<and>
      (\<forall>grp \<in> set groups. int (length grp) = 3 \<and> distinct grp \<and> set grp = {0..<3})"
    by (rule sampler_init_no_validation [OF rot_randperm_ok h, THEN conjunct2])
  then show ?thesis using rot_randperm_ok h by blast
qed

section \<open>Properties of the dataset\<close>

lemma sequence_sum_InrD:
  assumes "sequence_sum rs = Inr ys"
  shows "length ys = length rs \<and> (\<forall>i < length rs. rs ! i = Inr (ys ! i))"
  using assms
proof (induction rs arbitrary: ys)
  case Nil
  then show ?case by simp
next
  case (Cons r rs)
  from Cons.prems obtain x xs where
    r: "r = Inr x" and xs: "sequence_sum rs = Inr xs" and ys: "ys = x # xs"
    by (auto split: sum.splits)
  have ih: "length xs = length rs \<and> (\<forall>i < length rs. rs ! i = Inr (xs ! i))"
    by (rule Cons.IH [OF xs])
  show ?case
    unfolding ys using r ih by (auto simp: nth_Cons split: nat.splits)
qed

lemma sequence_sum_map_Inr:
  assumes "\<forall>x \<in> set xs. f x = Inr (h x)"
  shows "sequence_sum (map f xs) = Inr (map h xs)"
  using assms by (induction xs) auto

lemma py_index_in_range:
  assumes "0 \<le> i" and "i < int (length xs)"
  shows "py_index xs i = Inr (xs ! nat i)"
  using assms by (simp add: py_index_def)

lemma MetaSet_Dataset_init_InrD:
  assumes "MetaSet_Dataset_init listdir glob root phase k_shot k_eval = Inr ds"
  shows "length (episode_loader ds) = length (labels ds) \<and>
         (\<forall>idx < length (labels ds).
            episode_loader ds ! idx =
              \<lparr>dataset = \<lparr>images = PyStr (path_join (path_join (path_join root phase) (labels ds ! idx)) ''*''),
                          label = int idx\<rparr>,
               batch_size = k_shot + k_eval\<rparr>)"
proof -
  let ?root = "path_join root phase"
  obtain names where names: "listdir ?root = Inr names"
    using assms by (cases "listdir ?root") (simp_all add: MetaSet_Dataset_init_def Let_def)
  let ?labels = "sort names"
  let ?paths = "map (\<lambda>l. PyStr (path_join (path_join ?root l) ''*'')) ?labels"
  let ?rs = "map (\<lambda>idx. DataLoader_init \<lparr>images = ?paths ! idx, label = int idx\<rparr> (k_shot + k_eval))
                 [0..<length ?labels]"
  from assms names obtain loaders where
    seq: "sequence_sum ?rs = Inr loaders"
    and ds: "ds = \<lparr>labels = ?labels, episode_loader = loaders\<rparr>"
    by (auto simp: MetaSet_Dataset_init_def Let_def split: sum.splits)
  have len: "length loaders = length ?labels"
    using sequence_sum_InrD [OF seq] by simp
  have "loaders ! idx =
          \<lparr>dataset = \<lparr>images = PyStr (path_join (path_join ?root (?labels ! idx)) ''*''),
                      label = int idx\<rparr>,
           batch_size = k_shot + k_eval\<rparr>"
    if idx: "idx < length ?labels" for idx
  proof -
    have "?rs ! idx = Inr (loaders ! idx)"
      using sequence_sum_InrD [OF seq] idx by simp
    then show ?thesis
      using idx by (simp add: DataLoader_init_def split: if_splits)
  qed
  then show ?thesis
    using len by (simp add: ds)
qed

lemma DataLoader_next_InrD:
  assumes "DataLoader_next load collate_error od dl g = Inr ((xs, ys), g')"
  shows "xs \<noteq> [] \<and> length ys = length xs \<and> (\<forall>y \<in> set ys. y = label (dataset dl))"
proof -
  obtain ord g1 where rp: "od g (ClassDataset_len (dataset dl)) (nat (batch_size dl)) = (ord, g1)"
    by (cases "od g (ClassDataset_len (dataset dl)) (nat (batch_size dl))")
  let ?idxs = "take (nat (batch_size dl)) ord"
  let ?rs = "map (\<lambda>i. ClassDataset_getitem load (dataset dl) (int i)) ?idxs"
  from assms rp obtain examples where
    ne: "?idxs \<noteq> []" and seq: "sequence_sum ?rs = Inr examples"
    and xs: "xs = map fst examples" and ys: "ys = map snd examples"
    by (auto simp: DataLoader_next_def Let_def split: if_splits sum.splits option.splits)
  have len: "length examples = length ?idxs"
    and each: "\<forall>i < length ?idxs. ?rs ! i = Inr (examples ! i)"
    using sequence_sum_InrD [OF seq] by simp_all
  have "snd (examples ! i) = label (dataset dl)" if i: "i < length examples" for i
  proof -
    have "ClassDataset_getitem load (dataset dl) (int (?idxs ! i)) = Inr (examples ! i)"
      using each i len by simp
    then show ?thesis
      by (auto simp: ClassDataset_getitem_def split: sum.splits dest: arg_cong [where f = snd])
  qed
  then have "\<forall>e \<in> set examples. snd e = label (dataset dl)"
    by (metis in_set_conv_nth)
  then have "\<forall>y \<in> set ys. y = label (dataset dl)"
    unfolding ys by auto
  moreover have "examples \<noteq> []"
    using ne len by (metis length_0_conv)
  ultimately show ?thesis
    by (simp add: xs ys)
qed

text \<open>
  C10.  In a dataset that construction returned, the class at a valid position \<open>idx\<close>
  has label \<open>idx\<close>; fetching only reads the dataset, and every label of a batch fetched
  for class \<open>idx\<close> equals \<open>idx\<close>.
\<close>

theorem metaset_label_is_position:
  assumes "MetaSet_Dataset_init listdir glob root phase k_shot k_eval = Inr ds"
    and "0 \<le> idx" and "idx < int (MetaSet_Dataset_len ds)"
  shows "\<exists>dl. py_index (episode_loader ds) idx = Inr dl \<and> label (dataset dl) = idx \<and>
           (\<forall>g xs ys g'.
              MetaSet_Dataset_getitem load collate_error od ds idx g = Inr ((xs, ys), g') \<longrightarrow>
              ys \<noteq> [] \<and> length ys = length xs \<and> (\<forall>y \<in> set ys. y = idx))"
proof -
  have n: "nat idx < length (labels ds)"
    using assms(2,3) by (simp add: MetaSet_Dataset_len_def)
  have len: "length (episode_loader ds) = length (labels ds)"
    using MetaSet_Dataset_init_InrD [OF assms(1)] by simp
  let ?dl = "episode_loader ds ! nat idx"
  have ix: "py_index (episode_loader ds) idx = Inr ?dl"
    using assms(2) n len by (simp add: py_index_in_range)
  have lab: "label (dataset ?dl) = idx"
    using MetaSet_Dataset_init_InrD [OF assms(1)] n assms(2) by simp
  have "ys \<noteq> [] \<and> length ys = length xs \<and> (\<forall>y \<in> set ys. y = idx)"
    if "MetaSet_Dataset_getitem load collate_error od ds idx g = Inr ((xs, ys), g')" for g xs ys g'
  proof -
    from that ix have "DataLoader_next load collate_error od ?dl g = Inr ((xs, ys), g')"
      by (simp add: MetaSet_Dataset_getitem_def)
    from DataLoader_next_InrD [OF this] lab show ?thesis by auto
  qed
  then show ?thesis using ix lab by blast
qed

theorem metaset_label_is_position_witness:
  "MetaSet_Dataset_init fs_listdir fs_glob ''data'' ''train'' 1 2 = Inr fs_train_set \<and>
   (0::int) \<le> 1 \<and> 1 < int (MetaSet_Dataset_len fs_train_set) \<and>
   (\<exists>dl. py_index (episode_loader fs_train_set) 1 = Inr dl \<and> label (dataset dl) = 1 \<and>
      (\<forall>g xs ys g'.
         MetaSet_Dataset_getitem fs_load fs_collate rot_order fs_train_set 1 g = Inr ((xs, ys), g') \<longrightarrow>
         ys \<noteq> [] \<and> length ys = length xs \<and> (\<forall>y \<in> set ys. y = 1))) \<and>
   MetaSet_Dataset_getitem fs_load fs_collate rot_order fs_train_set 1 (0::nat)
     = Inr (([''d'', ''a'', ''t''], [1, 1, 1]), 2)"
proof -
  have i: "MetaSet_Dataset_init fs_listdir fs_glob ''data'' ''train'' 1 2 = Inr fs_train_set"
    by code_simp
  have a: "(0::int) \<le> 1" by simp
  have b: "1 < int (MetaSet_Dataset_len fs_train_set)"
    by (simp add: MetaSet_Dataset_len_def fs_train_set_def)
  have f: "MetaSet_Dataset_getitem fs_load fs_collate rot_order fs_train_set 1 (0::nat)
     = Inr (([''d'', ''a'', ''t''], [1, 1, 1]), 2)"
    by code_simp
  show ?thesis
    using metaset_label_is_position [OF i a b, of fs_load fs_collate rot_order] i a b f by blast
qed

text \<open>
  C2.  Construction on the sample file system: the class \<open>cat\<close> has two matching files,
  yet the \<open>ClassDataset\<close> built for it stores the glob pattern itself, and its length is
  the pattern's sixteen characters.
\<close>

theorem metaset_init_stores_pattern:
  "MetaSet_Dataset_init fs_listdir fs_glob ''data'' ''train'' 1 2 = Inr fs_train_set \<and>
   fs_glob ''data/train/cat/*'' = [''data/train/cat/1.jpg'', ''data/train/cat/0.jpg''] \<and>
   images (dataset (episode_loader fs_train_set ! 0)) = PyStr ''data/train/cat/*'' \<and>
   ClassDataset_len (dataset (episode_loader fs_train_set ! 0)) = 16"
proof -
  have "MetaSet_Dataset_init fs_listdir fs_glob ''data'' ''train'' 1 2 = Inr fs_train_set"
    by code_simp
  then show ?thesis
    by (simp add: fs_glob_def fs_train_set_def ClassDataset_len_def py_len_def)
qed

lemma rot_order_ok: "order_ok rot_order"
proof -
  have "mset (rotate g xs) = mset xs" for g and xs :: "nat list"
  proof -
    have "mset (drop k xs @ take k xs) = mset (take k xs @ drop k xs)" for k
      by (simp only: mset_append add.commute)
    then show ?thesis by (simp add: rotate_drop_take)
  qed
  then show ?thesis by (simp add: order_ok_def rot_order_def)
qed

lemma sequence_sum_InlD:
  assumes "sequence_sum rs = Inl e"
  shows "Inl e \<in> set rs"
  using assms
proof (induction rs)
  case Nil
  then show ?case by simp
next
  case (Cons r rs)
  then show ?case by (cases r) (auto split: sum.splits)
qed

lemma ClassDataset_getitem_in_range:
  assumes "i < ClassDataset_len c"
  shows "ClassDataset_getitem load c (int i) =
           (case load (py_items (images c) ! i) of
              Inl e \<Rightarrow> Inl e
            | Inr img \<Rightarrow> Inr (img, label c))"
  using assms
  by (simp add: ClassDataset_getitem_def ClassDataset_len_def py_len_def py_getitem_def
      py_index_in_range)

text \<open>
  C3 as stated fails.  Construction from \<open>data/train\<close> with \<open>k_shot + k_eval = 20\<close> gives
  the class \<open>cat\<close>, which has two example files and sixteen stored entries, a loader of
  batch size twenty.  Fetching the class does fail, but with the decoder's error for the
  entry \<open>/\<close>: no size is compared, and the error names neither a shortage nor the class.
\<close>

theorem getitem_short_class_counterexample:
  "MetaSet_Dataset_init fs_listdir fs_glob ''data'' ''train'' 5 15 = Inr fs_train_set_20 \<and>
   length (fs_glob ''data/train/cat/*'') = 2 \<and>
   ClassDataset_len (dataset (episode_loader fs_train_set_20 ! 0)) = 16 \<and>
   batch_size (episode_loader fs_train_set_20 ! 0) = 20 \<and>
   MetaSet_Dataset_getitem fs_load fs_collate rot_order fs_train_set_20 0 (0::nat)
     = Inl (OSError ''/'')"
  by code_simp

lemma order_ok_length: "order_ok od \<Longrightarrow> length (fst (od g n bs)) = n"
  by (metis order_ok_def size_mset length_upt diff_zero)

lemma order_ok_set: "order_ok od \<Longrightarrow> set (fst (od g n bs)) = {0..<n}"
  by (metis order_ok_def set_mset_mset set_upt)

lemma DataLoader_next_short:
  assumes ok: "order_ok od"
    and short: "int (ClassDataset_len (dataset dl)) < batch_size dl"
  shows "case DataLoader_next load collate_error od dl g of
           Inl e \<Rightarrow>
             (e = StopIteration \<and> ClassDataset_len (dataset dl) = 0) \<or>
             (\<exists>p \<in> set (py_items (images (dataset dl))). load p = Inl e) \<or>
             (\<exists>xs. collate_error xs = Some e \<and>
                   mset (map Inr xs) = mset (map load (py_items (images (dataset dl)))))
         | Inr ((xs, ys), g') \<Rightarrow>
             length xs = ClassDataset_len (dataset dl) \<and>
             ys = replicate (ClassDataset_len (dataset dl)) (label (dataset dl)) \<and>
             mset (map Inr xs) = mset (map load (py_items (images (dataset dl))))"
proof -
  let ?c = "dataset dl"
  let ?n = "ClassDataset_len ?c"
  let ?items = "py_items (images ?c)"
  let ?bs = "nat (batch_size dl)"
  have n: "?n = length ?items" by (simp add: ClassDataset_len_def py_len_def)
  obtain ord g1 where od: "od g ?n ?bs = (ord, g1)" by (cases "od g ?n ?bs")
  have len: "length ord = ?n" using order_ok_length [OF ok, of g ?n ?bs] od by simp
  have st: "set ord = {0..<?n}" using order_ok_set [OF ok, of g ?n ?bs] od by simp
  have ms: "mset ord = mset [0..<?n]" using ok od by (metis order_ok_def fst_conv)
  have tk: "take ?bs ord = ord" using len short by simp
  let ?rs = "map (\<lambda>i. ClassDataset_getitem load ?c (int i)) ord"
  have nxt: "DataLoader_next load collate_error od dl g =
      (if ord = [] then Inl StopIteration
       else (case sequence_sum ?rs of
               Inl e \<Rightarrow> Inl e
             | Inr examples \<Rightarrow>
                 (case collate_error (map fst examples) of
                    Some e \<Rightarrow> Inl e
                  | None \<Rightarrow> Inr ((map fst examples, map snd examples), g1))))"
    unfolding DataLoader_next_def Let_def od prod.case tk ..
  show ?thesis
  proof (cases "ord = []")
    case True
    then have "?n = 0" using len by simp
    then show ?thesis using True nxt by simp
  next
    case False
    show ?thesis
    proof (cases "sequence_sum ?rs")
      case (Inl e)
      then have "Inl e \<in> set ?rs" by (rule sequence_sum_InlD)
      then obtain i where i: "i \<in> set ord" and gi: "ClassDataset_getitem load ?c (int i) = Inl e"
        by auto
      have lt: "i < ?n" using i st by simp
      have "load (?items ! i) = Inl e"
        using gi ClassDataset_getitem_in_range [OF lt, of load] by (simp split: sum.splits)
      moreover have "?items ! i \<in> set ?items" using lt n by simp
      ultimately have "\<exists>p \<in> set ?items. load p = Inl e" by blast
      then show ?thesis using False nxt Inl by simp
    next
      case (Inr examples)
      have el: "length examples = length ord"
        and each: "\<forall>j < length ord. ?rs ! j = Inr (examples ! j)"
        using sequence_sum_InrD [OF Inr] by simp_all
      have ex: "load (?items ! (ord ! j)) = Inr (fst (examples ! j)) \<and>
                snd (examples ! j) = label ?c" if j: "j < length ord" for j
      proof -
        have lt: "ord ! j < ?n" using j st nth_mem [of j ord] by simp
        have "ClassDataset_getitem load ?c (int (ord ! j)) = Inr (examples ! j)"
          using each j by simp
        then show ?thesis
          using ClassDataset_getitem_in_range [OF lt, of load]
          by (cases "examples ! j") (auto split: sum.splits)
      qed
      let ?xs = "map fst examples"
      have xs: "map Inr ?xs = map (\<lambda>i. load (?items ! i)) ord"
        by (rule nth_equalityI) (use el ex in simp_all)
      have ys: "map snd examples = replicate ?n (label ?c)"
        by (rule nth_equalityI) (use el len ex in simp_all)
      have "mset (map Inr ?xs) = image_mset (\<lambda>i. load (?items ! i)) (mset ord)"
        unfolding xs by simp
      also have "\<dots> = mset (map load (map (\<lambda>i. ?items ! i) [0..<length ?items]))"
        unfolding ms by (simp add: n comp_def)
      also have "\<dots> = mset (map load ?items)"
        by (simp only: map_nth)
      finally have fin: "mset (map Inr ?xs) = mset (map load ?items)" .
      have lx: "length ?xs = ?n" using el len by simp
      show ?thesis
      proof (cases "collate_error ?xs")
        case None
        have res: "DataLoader_next load collate_error od dl g
                     = Inr ((?xs, replicate ?n (label ?c)), g1)"
          using False nxt Inr None ys by simp
        show ?thesis
          unfolding res by (simp only: sum.case prod.case) (intro conjI lx refl fin)
      next
        case (Some e)
        have res: "DataLoader_next load collate_error od dl g = Inl e"
          using False nxt Inr Some by simp
        have "\<exists>xs. collate_error xs = Some e \<and> mset (map Inr xs) = mset (map load ?items)"
          by (rule exI [of _ ?xs]) (intro conjI Some fin)
        then show ?thesis
          unfolding res by (simp only: sum.case) blast
      qed
    qed
  qed
qed

text \<open>
  C3, amended.  When the selected class holds fewer stored entries than the batch size
  \<open>k_shot + k_eval\<close>, fetching it compares no sizes.  The loader visits every stored
  entry once, in shuffled order, and the fetch ends in one of four ways: an empty class
  has no batch (\<open>StopIteration\<close>); the decoder's error for one of the entries; the
  collate error for the decoded entries; or, when every entry decodes and collates, a
  batch of just those entries with one copy of the class label each, smaller than
  \<open>k_shot + k_eval\<close>.
\<close>

theorem getitem_short_class_outcome:
  assumes "order_ok od"
    and "py_index (episode_loader ds) idx = Inr dl"
    and "int (ClassDataset_len (dataset dl)) < batch_size dl"
  shows "case MetaSet_Dataset_getitem load collate_error od ds idx g of
           Inl e \<Rightarrow>
             (e = StopIteration \<and> ClassDataset_len (dataset dl) = 0) \<or>
             (\<exists>p \<in> set (py_items (images (dataset dl))). load p = Inl e) \<or>
             (\<exists>xs. collate_error xs = Some e \<and>
                   mset (map Inr xs) = mset (map load (py_items (images (dataset dl)))))
         | Inr ((xs, ys), g') \<Rightarrow>
             length xs = ClassDataset_len (dataset dl) \<and>
             ys = replicate (ClassDataset_len (dataset dl)) (label (dataset dl)) \<and>
             mset (map Inr xs) = mset (map load (py_items (images (dataset dl))))"
proof -
  have "MetaSet_Dataset_getitem load collate_error od ds idx g
          = DataLoader_next load collate_error od dl g"
    using assms(2) by (simp add: MetaSet_Dataset_getitem_def)
  then show ?thesis
    using DataLoader_next_short [OF assms(1) assms(3), of load collate_error g] by simp
qed

theorem getitem_short_class_outcome_witness:
  "order_ok rot_order \<and>
   py_index (episode_loader fs_train_set_20) 1
     = Inr \<lparr>dataset = \<lparr>images = PyStr ''data/train/dog/*'', label = 1\<rparr>, batch_size = 20\<rparr> \<and>
   int (ClassDataset_len \<lparr>images = PyStr ''data/train/dog/*'', label = 1\<rparr>) < 20 \<and>
   MetaSet_Dataset_getitem fs_load fs_collate rot_order fs_train_set_20 1 (5::nat)
     = Inl (OSError ''r'') \<and>
   ((OSError ''r'' = StopIteration \<and>
       ClassDataset_len \<lparr>images = PyStr ''data/train/dog/*'', label = 1\<rparr> = 0) \<or>
    (\<exists>p \<in> set (py_items (PyStr ''data/train/dog/*'')). fs_load p = Inl (OSError ''r'')) \<or>
    (\<exists>xs. fs_collate xs = Some (OSError ''r'') \<and>
          mset (map Inr xs) = mset (map fs_load (py_items (PyStr ''data/train/dog/*'')))))"
proof -
  let ?dl = "\<lparr>dataset = \<lparr>images = PyStr ''data/train/dog/*'', label = 1\<rparr>, batch_size = 20\<rparr>"
  have ix: "py_index (episode_loader fs_train_set_20) 1 = Inr ?dl"
    by (simp add: py_index_def fs_train_set_20_def)
  have sh: "int (ClassDataset_len (dataset ?dl)) < batch_size ?dl"
    by (simp add: ClassDataset_len_def py_len_def)
  have ev: "MetaSet_Dataset_getitem fs_load fs_collate rot_order fs_train_set_20 1 (5::nat)
      = Inl (OSError ''r'')"
    by code_simp
  have out: "(OSError ''r'' = StopIteration \<and> ClassDataset_len (dataset ?dl) = 0) \<or>
    (\<exists>p \<in> set (py_items (images (dataset ?dl))). fs_load p = Inl (OSError ''r'')) \<or>
    (\<exists>xs. fs_collate xs = Some (OSError ''r'') \<and>
          mset (map Inr xs) = mset (map fs_load (py_items (images (dataset ?dl)))))"
    using getitem_short_class_outcome [OF rot_order_ok ix sh, of fs_load fs_collate 5]
    unfolding ev by (simp only: sum.case)
  show ?thesis
    using rot_order_ok ix sh ev out by simp
qed

text \<open>
  C9 as stated fails: the phase directory \<open>data/val\<close> exists and holds no class, and
  construction returns an empty dataset.
\<close>

theorem metaset_init_empty_phase_counterexample:
  "fs_listdir (path_join ''data'' ''val'') = Inr [] \<and>
   MetaSet_Dataset_init fs_listdir fs_glob ''data'' ''val'' 5 15
     = Inr \<lparr>labels = [], episode_loader = []\<rparr>"
  by code_simp

text \<open>
  C9, amended.  When listing the phase directory raises (the directory is missing),
  construction fails with that error; when the listing is empty, construction succeeds
  and the dataset has no class.
\<close>

theorem metaset_init_missing_or_empty_phase:
  "(listdir (path_join root phase) = Inl e \<longrightarrow>
      MetaSet_Dataset_init listdir glob root phase k_shot k_eval = Inl e) \<and>
   (listdir (path_join root phase) = Inr [] \<longrightarrow>
      MetaSet_Dataset_init listdir glob root phase k_shot k_eval
        = Inr \<lparr>labels = [], episode_loader = []\<rparr> \<and>
      MetaSet_Dataset_len \<lparr>labels = [], episode_loader = []\<rparr> = 0)"
  by (simp add: MetaSet_Dataset_init_def Let_def MetaSet_Dataset_len_def)

theorem metaset_init_missing_or_empty_phase_witness:
  "fs_listdir (path_join ''data'' ''test'') = Inl (OSError ''data/test'') \<and>
   MetaSet_Dataset_init fs_listdir fs_glob ''data'' ''test'' 5 15 = Inl (OSError ''data/test'') \<and>
   fs_listdir (path_join ''data'' ''val'') = Inr [] \<and>
   MetaSet_Dataset_init fs_listdir fs_glob ''data'' ''val'' 1 2
     = Inr \<lparr>labels = [], episode_loader = []\<rparr>"
proof -
  have a: "fs_listdir (path_join ''data'' ''test'') = Inl (OSError ''data/test'')"
    by (simp add: fs_listdir_def path_join_def)
  have b: "fs_listdir (path_join ''data'' ''val'') = Inr []"
    by (simp add: fs_listdir_def path_join_def)
  show ?thesis
    using a b
      metaset_init_missing_or_empty_phase
        [of fs_listdir "''data''" "''test''" "OSError ''data/test''" fs_glob 5 15]
      metaset_init_missing_or_empty_phase
        [of fs_listdir "''data''" "''val''" "OSError ''data/test''" fs_glob 1 2]
    by blast
qed

section \<open>Properties of the support/query split\<close>

lemma tensor_repeat_rows:
  assumes "0 \<le> k"
  shows "sequence_sum (map (\<lambda>i. tensor_repeat i k) cls) = Inr (map (replicate (nat k)) cls)"
  using assms by (intro sequence_sum_map_Inr) (simp add: tensor_repeat_def)

lemma py_range_nonempty: "0 < n \<Longrightarrow> py_range n \<noteq> []"
  by (simp add: py_range_def)

lemma class_is_task_result:
  assumes "0 < args_n_classes a" and "0 \<le> args_k_shot a" and "0 \<le> args_k_eval a"
  shows "get_support_query_batch_of_tasks_class_is_task_M_eq_N a SQ_x SQ_y =
           Inr (map (take (nat (args_k_shot a))) SQ_x,
                map (replicate (nat (args_k_shot a))) (py_range (args_n_classes a)),
                map (drop (nat (args_k_shot a))) SQ_x,
                map (replicate (nat (args_k_eval a))) (py_range (args_n_classes a)))"
proof -
  have sl: "(\<lambda>row :: 'a list. py_slice_to row (args_k_shot a)) = take (nat (args_k_shot a))"
    "(\<lambda>row :: 'a list. py_slice_from row (args_k_shot a)) = drop (nat (args_k_shot a))"
    using assms(2) by (auto simp: py_slice_to_def py_slice_from_def)
  show ?thesis
    unfolding get_support_query_batch_of_tasks_class_is_task_M_eq_N_def Let_def sl
      tensor_repeat_rows [OF assms(2)] tensor_repeat_rows [OF assms(3)]
    using py_range_nonempty [OF assms(1)] by (simp add: torch_stack_def)
qed

lemma data_set_is_task_result:
  assumes "0 \<le> args_k_shot a" and "0 \<le> args_k_eval a"
  shows "get_support_query_set_for_data_set_is_task a SQ_x SQ_y =
           Inr (concat (map (take (nat (args_k_shot a))) SQ_x),
                concat (map (replicate (nat (args_k_shot a))) (py_range (args_n_classes a))),
                concat (map (drop (nat (args_k_shot a))) SQ_x),
                concat (map (replicate (nat (args_k_eval a))) (py_range (args_n_classes a))))"
proof -
  have sl: "(\<lambda>row :: 'a list. py_slice_to row (args_k_shot a)) = take (nat (args_k_shot a))"
    "(\<lambda>row :: 'a list. py_slice_from row (args_k_shot a)) = drop (nat (args_k_shot a))"
    using assms(1) by (auto simp: py_slice_to_def py_slice_from_def)
  show ?thesis
    unfolding get_support_query_set_for_data_set_is_task_def Let_def sl
    using assms by (simp add: np_repeat_def)
qed

lemma length_concat_uniform:
  assumes "\<forall>row \<in> set xss. length row = k"
  shows "length (concat xss) = length xss * k"
  using assms by (induction xss) auto

lemma nth_concat_uniform:
  assumes "\<forall>row \<in> set xss. length row = k" and "i < length xss" and "j < k"
  shows "concat xss ! (i * k + j) = xss ! i ! j"
  using assms
proof (induction xss arbitrary: i)
  case Nil
  then show ?case by simp
next
  case (Cons row xss)
  show ?case
  proof (cases i)
    case 0
    then show ?thesis using Cons.prems by (simp add: nth_append)
  next
    case (Suc i')
    have "concat xss ! (i' * k + j) = xss ! i' ! j"
      using Cons.IH [of i'] Cons.prems Suc by simp
    moreover have "length row = k" using Cons.prems by simp
    ultimately show ?thesis using Suc by (simp add: nth_append add.assoc)
  qed
qed

lemma mset_concat_take_drop:
  "mset (concat (map (take k) xss)) + mset (concat (map (drop k) xss)) = mset (concat xss)"
proof (induction xss)
  case Nil
  show ?case by simp
next
  case (Cons row xss)
  have "mset (take k row) + mset (drop k row) = mset row"
    by (metis append_take_drop_id mset_append)
  then show ?case using Cons.IH by (simp add: ac_simps)
qed

lemma nth_concat_replicate:
  assumes "i < length cls" and "j < k"
  shows "concat (map (replicate k) cls) ! (i * k + j) = cls ! i"
proof -
  have "concat (map (replicate k) cls) ! (i * k + j) = map (replicate k) cls ! i ! j"
    by (rule nth_concat_uniform) (use assms in auto)
  then show ?thesis using assms by simp
qed

text \<open>
  C5.  For a batch of \<open>n_classes\<close> rows of \<open>k_shot + k_eval\<close> examples, both split
  functions succeed; per class the support row is the first \<open>k_shot\<close> examples and the
  query row the remaining \<open>k_eval\<close>, so each row is its support part followed by its
  query part; the flattened support has \<open>n_classes * k_shot\<close> elements and the flattened
  query \<open>n_classes * k_eval\<close>, and together they hold each input example once.
\<close>

theorem split_sizes_and_partition:
  assumes "0 < args_n_classes a" and "0 \<le> args_k_shot a" and "0 \<le> args_k_eval a"
    and "int (length SQ_x) = args_n_classes a"
    and "\<forall>row \<in> set SQ_x. int (length row) = args_k_shot a + args_k_eval a"
  shows "\<exists>S_x S_y Q_x Q_y F_y G_y.
           get_support_query_batch_of_tasks_class_is_task_M_eq_N a SQ_x SQ_y
             = Inr (S_x, S_y, Q_x, Q_y) \<and>
           get_support_query_set_for_data_set_is_task a SQ_x SQ_y
             = Inr (concat S_x, F_y, concat Q_x, G_y) \<and>
           S_x = map (take (nat (args_k_shot a))) SQ_x \<and>
           Q_x = map (drop (nat (args_k_shot a))) SQ_x \<and>
           (\<forall>row \<in> set S_x. int (length row) = args_k_shot a) \<and>
           (\<forall>row \<in> set Q_x. int (length row) = args_k_eval a) \<and>
           (\<forall>i < length SQ_x. S_x ! i @ Q_x ! i = SQ_x ! i) \<and>
           int (length (concat S_x)) = args_n_classes a * args_k_shot a \<and>
           int (length (concat Q_x)) = args_n_classes a * args_k_eval a \<and>
           mset (concat S_x) + mset (concat Q_x) = mset (concat SQ_x)"
proof -
  let ?ks = "nat (args_k_shot a)" and ?ke = "nat (args_k_eval a)"
  let ?S = "map (take ?ks) SQ_x" and ?Q = "map (drop ?ks) SQ_x"
  have rows: "\<forall>row \<in> set SQ_x. length row = ?ks + ?ke"
    using assms(2,3,5) by (auto simp: nat_add_distrib)
  have sr: "\<forall>row \<in> set ?S. length row = ?ks" using rows by auto
  have qr: "\<forall>row \<in> set ?Q. length row = ?ke" using rows by auto
  have ls: "length (concat ?S) = length SQ_x * ?ks"
    using length_concat_uniform [OF sr] by simp
  have lq: "length (concat ?Q) = length SQ_x * ?ke"
    using length_concat_uniform [OF qr] by simp
  have s1: "int (length (concat ?S)) = args_n_classes a * args_k_shot a"
    unfolding ls using assms(2,4) by simp
  have q1: "int (length (concat ?Q)) = args_n_classes a * args_k_eval a"
    unfolding lq using assms(3,4) by simp
  have s2: "\<forall>row \<in> set ?S. int (length row) = args_k_shot a" using sr assms(2) by auto
  have q2: "\<forall>row \<in> set ?Q. int (length row) = args_k_eval a" using qr assms(3) by auto
  have app: "\<forall>i < length SQ_x. ?S ! i @ ?Q ! i = SQ_x ! i" by simp
  have ms: "mset (concat ?S) + mset (concat ?Q) = mset (concat SQ_x)"
    by (rule mset_concat_take_drop)
  show ?thesis
    unfolding class_is_task_result [OF assms(1,2,3)] data_set_is_task_result [OF assms(2,3)]
    using s1 q1 s2 q2 app ms by blast
qed

theorem split_sizes_and_partition_witness:
  "(0::int) < 2 \<and> (0::int) \<le> 1 \<and> (0::int) \<le> 2 \<and>
   get_support_query_batch_of_tasks_class_is_task_M_eq_N
     \<lparr>args_n_classes = 2, args_k_shot = 1, args_k_eval = 2\<rparr>
     [[''a0'', ''a1'', ''a2''], [''b0'', ''b1'', ''b2'']] [[7, 7, 7], [3, 3, 3]]
   = Inr ([[''a0''], [''b0'']], [[0], [1]],
          [[''a1'', ''a2''], [''b1'', ''b2'']], [[0, 0], [1, 1]]) \<and>
   get_support_query_set_for_data_set_is_task
     \<lparr>args_n_classes = 2, args_k_shot = 1, args_k_eval = 2\<rparr>
     [[''a0'', ''a1'', ''a2''], [''b0'', ''b1'', ''b2'']] [[7, 7, 7], [3, 3, 3]]
   = Inr ([''a0'', ''b0''], [0, 1], [''a1'', ''a2'', ''b1'', ''b2''], [0, 0, 1, 1])"
proof -
  let ?a = "\<lparr>args_n_classes = 2, args_k_shot = 1, args_k_eval = 2\<rparr>"
  let ?x = "[[''a0'', ''a1'', ''a2''], [''b0'', ''b1'', ''b2'']]"
  let ?y = "[[7, 7, 7], [3, 3, 3 :: int]]"
  have h: "0 < args_n_classes ?a" "0 \<le> args_k_shot ?a" "0 \<le> args_k_eval ?a"
    "int (length ?x) = args_n_classes ?a"
    "\<forall>row \<in> set ?x. int (length row) = args_k_shot ?a + args_k_eval ?a"
    by simp_all
  obtain S_x S_y Q_x Q_y F_y G_y where
    c: "get_support_query_batch_of_tasks_class_is_task_M_eq_N ?a ?x ?y = Inr (S_x, S_y, Q_x, Q_y)"
    and d: "get_support_query_set_for_data_set_is_task ?a ?x ?y = Inr (concat S_x, F_y, concat Q_x, G_y)"
    and s: "S_x = map (take (nat (args_k_shot ?a))) ?x"
    and q: "Q_x = map (drop (nat (args_k_shot ?a))) ?x"
    using split_sizes_and_partition [OF h, of ?y] by blast
  have c': "get_support_query_batch_of_tasks_class_is_task_M_eq_N ?a ?x ?y
      = Inr ([[''a0''], [''b0'']], [[0], [1]], [[''a1'', ''a2''], [''b1'', ''b2'']], [[0, 0], [1, 1]])"
    by code_simp
  have d': "get_support_query_set_for_data_set_is_task ?a ?x ?y
      = Inr ([''a0'', ''b0''], [0, 1], [''a1'', ''a2'', ''b1'', ''b2''], [0, 0, 1, 1])"
    by code_simp
  show ?thesis using c c' d d' by simp
qed

text \<open>
  Outside that shape the flattened layout is not aligned: with rows shorter than
  \<open>k_shot\<close> the label list is longer than the example list.
\<close>

lemma data_set_is_task_short_rows:
  "get_support_query_set_for_data_set_is_task
     \<lparr>args_n_classes = 2, args_k_shot = 2, args_k_eval = 1\<rparr> [[''p0''], [''q0'']] [[0], [1]]
   = Inr ([''p0'', ''q0''], [0, 0, 1, 1], [], [0, 1])"
  by code_simp

text \<open>
  C4 as stated fails.  The sampler selects the classes 1 and 2 of three; by the dataset's
  labelling their batches carry the labels 1 and 2; both split functions return the
  labels 0 and 1 for their examples.
\<close>

theorem split_labels_counterexample:
  "EpisodicSampler_iter rot_randperm \<lparr>total_classes = 3, n_classes = 2, n_episode = 1\<rparr> (1::nat)
     = Inr ([[1, 2]], 2) \<and>
   get_support_query_batch_of_tasks_class_is_task_M_eq_N
     \<lparr>args_n_classes = 2, args_k_shot = 1, args_k_eval = 2\<rparr>
     [[''u0'', ''u1'', ''u2''], [''v0'', ''v1'', ''v2'']] [[1, 1, 1], [2, 2, 2]]
   = Inr ([[''u0''], [''v0'']], [[0], [1]], [[''u1'', ''u2''], [''v1'', ''v2'']], [[0, 0], [1, 1]]) \<and>
   get_support_query_set_for_data_set_is_task
     \<lparr>args_n_classes = 2, args_k_shot = 1, args_k_eval = 2\<rparr>
     [[''u0'', ''u1'', ''u2''], [''v0'', ''v1'', ''v2'']] [[1, 1, 1], [2, 2, 2]]
   = Inr ([''u0'', ''v0''], [0, 1], [''u1'', ''u2'', ''v1'', ''v2''], [0, 0, 1, 1]) \<and>
   [[0], [1]] \<noteq> map (\<lambda>row. py_slice_to row 1) [[1, 1, 1], [2, 2, 2 :: int]]"
  by code_simp

text \<open>
  C4, amended.  For a batch of \<open>n_classes\<close> rows of \<open>k_shot + k_eval\<close> examples, under
  both policies the label blocks are as large as the example blocks, and the example at
  position \<open>j\<close> of the support (query) slice of the \<open>i\<close>-th selected class is the
  \<open>j\<close>-th (\<open>k_shot + j\<close>-th) example fetched for that class and carries the label \<open>i\<close>,
  the position of the class within the episode.  The labels that came with the batch are
  not read.
\<close>

theorem split_label_alignment:
  assumes "0 < args_n_classes a" and "0 \<le> args_k_shot a" and "0 \<le> args_k_eval a"
    and "int (length SQ_x) = args_n_classes a"
    and "\<forall>row \<in> set SQ_x. int (length row) = args_k_shot a + args_k_eval a"
  shows "\<exists>S_x S_y Q_x Q_y F_x F_y G_x G_y.
           get_support_query_batch_of_tasks_class_is_task_M_eq_N a SQ_x SQ_y
             = Inr (S_x, S_y, Q_x, Q_y) \<and>
           get_support_query_set_for_data_set_is_task a SQ_x SQ_y
             = Inr (F_x, F_y, G_x, G_y) \<and>
           length S_y = length S_x \<and> length Q_y = length Q_x \<and>
           length F_y = length F_x \<and> length G_y = length G_x \<and>
           (\<forall>i < length SQ_x.
              length (S_y ! i) = length (S_x ! i) \<and> length (Q_y ! i) = length (Q_x ! i) \<and>
              (\<forall>j < nat (args_k_shot a).
                 S_x ! i ! j = SQ_x ! i ! j \<and> S_y ! i ! j = int i \<and>
                 F_x ! (i * nat (args_k_shot a) + j) = SQ_x ! i ! j \<and>
                 F_y ! (i * nat (args_k_shot a) + j) = int i) \<and>
              (\<forall>j < nat (args_k_eval a).
                 Q_x ! i ! j = SQ_x ! i ! (nat (args_k_shot a) + j) \<and> Q_y ! i ! j = int i \<and>
                 G_x ! (i * nat (args_k_eval a) + j) = SQ_x ! i ! (nat (args_k_shot a) + j) \<and>
                 G_y ! (i * nat (args_k_eval a) + j) = int i))"
proof -
  let ?ks = "nat (args_k_shot a)" and ?ke = "nat (args_k_eval a)"
  let ?cls = "py_range (args_n_classes a)"
  let ?S = "map (take ?ks) SQ_x" and ?Q = "map (drop ?ks) SQ_x"
  let ?Sy = "map (replicate ?ks) ?cls" and ?Qy = "map (replicate ?ke) ?cls"
  have n: "length ?cls = length SQ_x"
    using assms(4) by (simp add: py_range_def)
  have cls: "?cls ! i = int i" if "i < length SQ_x" for i
    using that n by (simp add: py_range_def)
  have rows: "\<forall>row \<in> set SQ_x. length row = ?ks + ?ke"
    using assms(2,3,5) by (auto simp: nat_add_distrib)
  have sr: "\<forall>row \<in> set ?S. length row = ?ks" using rows by auto
  have qr: "\<forall>row \<in> set ?Q. length row = ?ke" using rows by auto
  have l1: "length ?Sy = length ?S" "length ?Qy = length ?Q" using n by simp_all
  have l2: "length (concat ?Sy) = length (concat ?S)"
    using length_concat_uniform [OF sr] length_concat_uniform [of ?Sy ?ks] n by simp
  have l3: "length (concat ?Qy) = length (concat ?Q)"
    using length_concat_uniform [OF qr] length_concat_uniform [of ?Qy ?ke] n by simp
  have per: "length (?Sy ! i) = length (?S ! i) \<and> length (?Qy ! i) = length (?Q ! i) \<and>
      (\<forall>j < ?ks. ?S ! i ! j = SQ_x ! i ! j \<and> ?Sy ! i ! j = int i \<and>
                  concat ?S ! (i * ?ks + j) = SQ_x ! i ! j \<and>
                  concat ?Sy ! (i * ?ks + j) = int i) \<and>
      (\<forall>j < ?ke. ?Q ! i ! j = SQ_x ! i ! (?ks + j) \<and> ?Qy ! i ! j = int i \<and>
                  concat ?Q ! (i * ?ke + j) = SQ_x ! i ! (?ks + j) \<and>
                  concat ?Qy ! (i * ?ke + j) = int i)"
    if i: "i < length SQ_x" for i
  proof -
    have row: "length (SQ_x ! i) = ?ks + ?ke" using rows i by simp
    have a1: "length (?Sy ! i) = length (?S ! i)" using i n row by simp
    have a2: "length (?Qy ! i) = length (?Q ! i)" using i n row by simp
    have s: "?S ! i ! j = SQ_x ! i ! j \<and> ?Sy ! i ! j = int i \<and>
             concat ?S ! (i * ?ks + j) = SQ_x ! i ! j \<and> concat ?Sy ! (i * ?ks + j) = int i"
      if j: "j < ?ks" for j
    proof -
      have "concat ?S ! (i * ?ks + j) = ?S ! i ! j"
        by (rule nth_concat_uniform [OF sr]) (use i j in simp_all)
      moreover have "concat ?Sy ! (i * ?ks + j) = ?cls ! i"
        by (rule nth_concat_replicate) (use i j n in simp_all)
      ultimately show ?thesis using i j n cls [OF i] by simp
    qed
    have q: "?Q ! i ! j = SQ_x ! i ! (?ks + j) \<and> ?Qy ! i ! j = int i \<and>
             concat ?Q ! (i * ?ke + j) = SQ_x ! i ! (?ks + j) \<and> concat ?Qy ! (i * ?ke + j) = int i"
      if j: "j < ?ke" for j
    proof -
      have "concat ?Q ! (i * ?ke + j) = ?Q ! i ! j"
        by (rule nth_concat_uniform [OF qr]) (use i j in simp_all)
      moreover have "concat ?Qy ! (i * ?ke + j) = ?cls ! i"
        by (rule nth_concat_replicate) (use i j n in simp_all)
      ultimately show ?thesis using i j n row cls [OF i] by simp
    qed
    show ?thesis using a1 a2 s q by blast
  qed
  show ?thesis
    unfolding class_is_task_result [OF assms(1,2,3)] data_set_is_task_result [OF assms(2,3)]
    using l1 l2 l3 per by blast
qed

theorem split_label_alignment_witness:
  "(0::int) < 2 \<and> (0::int) \<le> 2 \<and> (0::int) \<le> 1 \<and>
   get_support_query_batch_of_tasks_class_is_task_M_eq_N
     \<lparr>args_n_classes = 2, args_k_shot = 2, args_k_eval = 1\<rparr>
     [[''p0'', ''p1'', ''p2''], [''q0'', ''q1'', ''q2'']] [[28, 28, 28], [45, 45, 45]]
   = Inr ([[''p0'', ''p1''], [''q0'', ''q1'']], [[0, 0], [1, 1]], [[''p2''], [''q2'']], [[0], [1]]) \<and>
   get_support_query_set_for_data_set_is_task
     \<lparr>args_n_classes = 2, args_k_shot = 2, args_k_eval = 1\<rparr>
     [[''p0'', ''p1'', ''p2''], [''q0'', ''q1'', ''q2'']] [[28, 28, 28], [45, 45, 45]]
   = Inr ([''p0'', ''p1'', ''q0'', ''q1''], [0, 0, 1, 1], [''p2'', ''q2''], [0, 1])"
proof -
  let ?a = "\<lparr>args_n_classes = 2, args_k_shot = 2, args_k_eval = 1\<rparr>"
  let ?x = "[[''p0'', ''p1'', ''p2''], [''q0'', ''q1'', ''q2'']]"
  let ?y = "[[28, 28, 28], [45, 45, 45 :: int]]"
  have h: "0 < args_n_classes ?a" "0 \<le> args_k_shot ?a" "0 \<le> args_k_eval ?a"
    "int (length ?x) = args_n_classes ?a"
    "\<forall>row \<in> set ?x. int (length row) = args_k_shot ?a + args_k_eval ?a"
    by simp_all
  obtain S_x S_y Q_x Q_y F_x F_y G_x G_y where
    c: "get_support_query_batch_of_tasks_class_is_task_M_eq_N ?a ?x ?y = Inr (S_x, S_y, Q_x, Q_y)"
    and d: "get_support_query_set_for_data_set_is_task ?a ?x ?y = Inr (F_x, F_y, G_x, G_y)"
    using split_label_alignment [OF h, of ?y] by blast
  have c': "get_support_query_batch_of_tasks_class_is_task_M_eq_N ?a ?x ?y
      = Inr ([[''p0'', ''p1''], [''q0'', ''q1'']], [[0, 0], [1, 1]], [[''p2''], [''q2'']], [[0], [1]])"
    by code_simp
  have d': "get_support_query_set_for_data_set_is_task ?a ?x ?y
      = Inr ([''p0'', ''p1'', ''q0'', ''q1''], [0, 0, 1, 1], [''p2'', ''q2''], [0, 1])"
    by code_simp
  show ?thesis using c c' d d' by simp
qed

end
